theory Spec2Isabelle
  imports Complex_Main "HOL-Library.Word"
begin

section \<open>Scalar helpers of \<^verbatim>\<open>math_lib.h\<close>\<close>

text \<open>
  The three clamping routines of namespace \<^verbatim>\<open>math\<close> take and return \<^verbatim>\<open>double\<close>.
  \<^verbatim>\<open>
  inline double ClampNonNegative(double d) { return (d + fabs(d)) / 2; }
  inline double ClampNonPositive(double d) { return (d - fabs(d)) / 2; }
  inline double ClampRange(double value, double range_min, double range_max) {
    if (value <= range_min)      { return range_min; }
    else if (value >= range_max) { return range_max; }
    else                         { return value; }
  }
  \<close>
  \<^verbatim>\<open>ClampRange\<close> only compares its arguments and returns one of them, so on real-valued
  arguments it is a function on the real numbers. The other two compute with doubles, and
  their sums round and overflow; they are defined below on a model of the binary64 values.
\<close>

definition ClampRange :: "real \<Rightarrow> real \<Rightarrow> real \<Rightarrow> real" where
  "ClampRange val range_min range_max =
     (if val \<le> range_min then range_min
      else if val \<ge> range_max then range_max
      else val)"

subsection \<open>Binary64 values and the operations the clamps use\<close>

text \<open>
  A \<^verbatim>\<open>double\<close> is a finite value, one of the two infinities, or NaN. The finite values are
  the reals \<open>m \<cdot> 2\<^sup>e\<close> with an integer \<open>|m| < 2\<^sup>5\<^sup>3\<close> and \<open>-1074 \<le> e \<le> 971\<close> (\<open>is_double\<close>); the
  largest is \<open>(2\<^sup>5\<^sup>3 - 1) \<cdot> 2\<^sup>9\<^sup>7\<^sup>1\<close>. The two zeros are one value here: they compare equal,
  and none of the operations below tells them apart.
\<close>

datatype double = Finite real | PlusInf | MinusInf | NaN

definition is_double :: "real \<Rightarrow> bool" where
  "is_double r \<longleftrightarrow>
     (\<exists>m e :: int. \<bar>m\<bar> < 2 ^ 53 \<and> - 1074 \<le> e \<and> e \<le> 971 \<and> r = of_int m * 2 powi e)"

text \<open>
  The result of an arithmetic operation is the exact result rounded to the nearest double,
  a tie going to the even significand. \<open>find_exp\<close> looks for the exponent of the unit in the
  last place: the least \<open>e\<close> from \<open>-1074\<close> on with \<open>|r| < 2\<^sup>5\<^sup>3 \<cdot> 2\<^sup>e\<close>, and \<open>971\<close> when there is none
  below. The quotient \<open>r / 2\<^sup>e\<close> is rounded to an integer by \<open>round_even\<close>, and a result of
  magnitude \<open>2\<^sup>1\<^sup>0\<^sup>2\<^sup>4\<close> or more is the infinity of its sign (overflow).
\<close>

definition round_even :: "real \<Rightarrow> int" where
  "round_even q =
     (let f = \<lfloor>q\<rfloor>; d = q - of_int f
      in if d < 1 / 2 then f else if 1 / 2 < d then f + 1 else if even f then f else f + 1)"

fun find_exp :: "nat \<Rightarrow> int \<Rightarrow> real \<Rightarrow> int" where
  "find_exp 0 e a = e"
| "find_exp (Suc n) e a = (if a < 2 powi (e + 53) then e else find_exp n (e + 1) a)"

definition round_to_double :: "real \<Rightarrow> double" where
  "round_to_double r =
     (let e = find_exp 2045 (- 1074) \<bar>r\<bar>;
          v = of_int (round_even (r / 2 powi e)) * 2 powi e
      in if 2 ^ 1024 \<le> v then PlusInf
         else if v \<le> - (2 ^ 1024) then MinusInf
         else Finite v)"

text \<open>
  \<^verbatim>\<open>fabs\<close>, the sum, the difference (the sum with the negated second operand) and the
  division by the constant \<open>2\<close>, the only divisor in the two routines. An infinity minus
  itself is NaN, and NaN goes through every operation.
\<close>

fun fabs :: "double \<Rightarrow> double" where
  "fabs (Finite a) = Finite \<bar>a\<bar>"
| "fabs PlusInf = PlusInf"
| "fabs MinusInf = PlusInf"
| "fabs NaN = NaN"

fun double_neg :: "double \<Rightarrow> double" where
  "double_neg (Finite a) = Finite (- a)"
| "double_neg PlusInf = MinusInf"
| "double_neg MinusInf = PlusInf"
| "double_neg NaN = NaN"

fun double_add :: "double \<Rightarrow> double \<Rightarrow> double" where
  "double_add (Finite a) (Finite b) = round_to_double (a + b)"
| "double_add NaN y = NaN"
| "double_add x NaN = NaN"
| "double_add PlusInf MinusInf = NaN"
| "double_add MinusInf PlusInf = NaN"
| "double_add PlusInf y = PlusInf"
| "double_add x PlusInf = PlusInf"
| "double_add MinusInf y = MinusInf"
| "double_add x MinusInf = MinusInf"

definition double_sub :: "double \<Rightarrow> double \<Rightarrow> double" where
  "double_sub x y = double_add x (double_neg y)"

fun double_half :: "double \<Rightarrow> double" where
  "double_half (Finite a) = round_to_double (a / 2)"
| "double_half PlusInf = PlusInf"
| "double_half MinusInf = MinusInf"
| "double_half NaN = NaN"

text \<open>The two branch-free clamps, as the header writes them.\<close>

definition ClampNonNegative :: "double \<Rightarrow> double" where
  "ClampNonNegative d = double_half (double_add d (fabs d))"

definition ClampNonPositive :: "double \<Rightarrow> double" where
  "ClampNonPositive d = double_half (double_sub d (fabs d))"

section \<open>The far-field expansion object of \<^verbatim>\<open>cartesian_farfield.h\<close>\<close>

text \<open>
  Class \<^verbatim>\<open>CartesianFarField\<close> has three private members: the centre and the coefficients,
  both a \<^verbatim>\<open>core::table::DensePoint\<close> (a dense vector of doubles, here a list of reals), and the
  order, a \<^verbatim>\<open>short int\<close>: a 16-bit word read as a signed number (\<open>sint\<close>), so that a value
  outside \<open>-32768 .. 32767\<close> handed to the class wraps as the narrowing to \<^verbatim>\<open>short\<close> does. The
  members \<^verbatim>\<open>center_\<close>, \<^verbatim>\<open>coeffs_\<close> and \<^verbatim>\<open>order_\<close> are the fields \<open>center_m\<close>, \<open>coeffs_m\<close> and
  \<open>order_m\<close> (a name cannot end in an underscore here).
\<close>

record CartesianFarField =
  center_m :: "real list"
  coeffs_m :: "real list"
  order_m :: "16 word"


definition get_coeffs :: "CartesianFarField \<Rightarrow> real list" where
  "get_coeffs x = coeffs_m x"


text \<open>
  \<^verbatim>\<open>double get_weight_sum() const { return coeffs_[0]; }\<close>
  reads the first coefficient. On a vector with no entry the C++ read is outside the
  vector and has no defined result; that case is \<open>None\<close> here.
\<close>

definition get_weight_sum :: "CartesianFarField \<Rightarrow> real option" where
  "get_weight_sum x = (if coeffs_m x = [] then None else Some (coeffs_m x ! 0))"





section \<open>Multi-indices, kernel constants and accumulation\<close>

text \<open>
  The header declares \<^verbatim>\<open>Init\<close>, \<^verbatim>\<open>Accumulate\<close> and \<^verbatim>\<open>AccumulateCoeffs\<close> and documents them, but
  their bodies, the kernel auxiliary class (the template parameter \<^verbatim>\<open>KernelAuxType\<close>) and the
  multi-index table of \<^verbatim>\<open>series_expansion_aux.h\<close> are not among the sources. The definitions
  of this section follow the written description of those parts instead. The header's
  comment on \<^verbatim>\<open>Accumulate\<close> gives the same update: the far-field moments \<open>F(R)\<close> become
  \<open>F(R) + w [((r - R.c) / kh)^\<alpha>]\<close> for the multi-indices \<open>\<alpha>\<close> up to the order \<open>p\<close>.
\<close>

text \<open>
  Modelled from the spec: the kernel auxiliary constants, "a read-only bundle of a scale
  factor \<open>k\<close> (kernel-specific; e.g. \<open>\<surd>2\<close> for the Gaussian) and bandwidth \<open>h\<close>, used to
  normalize displacement vectors as \<open>(point - center) / (k\<cdot>h)\<close>". The class behind
  \<^verbatim>\<open>KernelAuxType\<close> is missing.
\<close>

record KernelAux =
  kernel_k :: real
  kernel_h :: real

definition bandwidth_factor :: "KernelAux \<Rightarrow> real" where
  "bandwidth_factor ka = kernel_k ka * kernel_h ka"

text \<open>
  Modelled from the spec: a multi-index, "a \<open>D\<close>-tuple of non-negative integers; its order is
  the sum of components". The table class is missing.
\<close>

type_synonym MultiIndex = "nat list"

text \<open>
  Modelled from the spec: the enumeration of the missing multi-index table,
  "\<open>Enumerate(dimension D, maxOrder p)\<close>: ordered sequence of MultiIndex, deterministic and
  stable across calls, conventionally grouped by increasing order then lexicographic within
  an order". \<open>multiindices_of_order D n\<close> lists the \<open>D\<close>-tuples of order exactly \<open>n\<close> in
  lexicographic order; \<open>Enumerate D p\<close> chains the groups of order \<open>0, 1, \<dots>, p\<close>.
\<close>

fun multiindices_of_order :: "nat \<Rightarrow> nat \<Rightarrow> MultiIndex list" where
  "multiindices_of_order 0 n = (if n = 0 then [[]] else [])"
| "multiindices_of_order (Suc D) n =
     concat (map (\<lambda>i. map ((#) i) (multiindices_of_order D (n - i))) [0..<Suc n])"

definition Enumerate :: "nat \<Rightarrow> nat \<Rightarrow> MultiIndex list" where
  "Enumerate D p = concat (map (multiindices_of_order D) [0..<Suc p])"

text \<open>
  Modelled from the spec: "\<open>Power(displacement, multiIndex)\<close>: real (product of
  \<open>displacement[i]^\<alpha>_i\<close>)" of the missing multi-index table.
\<close>

definition Power :: "real list \<Rightarrow> MultiIndex \<Rightarrow> real" where
  "Power d \<alpha> = prod_list (map2 (\<lambda>di ai. di ^ ai) d \<alpha>)"

text \<open>
  Modelled from the spec: the normalised displacement
  "\<open>(referencePoint - center) / (k\<cdot>h)\<close>" that the missing body of \<^verbatim>\<open>Accumulate\<close> computes,
  coordinate by coordinate. The division is the one of the reals; a bandwidth factor of
  zero, where the double division gives an infinity or NaN, is outside this model.
\<close>

definition displacement :: "KernelAux \<Rightarrow> real list \<Rightarrow> real list \<Rightarrow> real list" where
  "displacement ka point center = map2 (\<lambda>p c. (p - c) / bandwidth_factor ka) point center"

text \<open>
  Modelled from the spec: "\<open>Init(center, kernelAux)\<close>: sets center, zeroes coefficients,
  order = 0", with the coefficient vector of the length the data model gives an expansion
  of order \<open>0\<close> ("length = number of multi-indices up to the expansion's current order").
  The body of \<^verbatim>\<open>Init\<close> is missing.
\<close>

definition Init :: "real list \<Rightarrow> KernelAux \<Rightarrow> CartesianFarField" where
  "Init center ka =
     \<lparr>center_m = center,
      coeffs_m = replicate (length (Enumerate (length center) 0)) 0,
      order_m = 0\<rparr>"

text \<open>
  Modelled from the spec: the running sum into the coefficient vector, "add
  \<open>weight \<cdot> displacement^\<alpha>\<close> into \<open>coeffs[rank(\<alpha>)]\<close>", for the terms listed in the order of the
  enumeration, which is the order of the ranks. A coefficient the vector does not hold yet
  counts as zero and the vector grows to hold it, as the vector's length follows the order
  in the data model. \<open>coeff_at cs i\<close> reads a coefficient that way.
\<close>

fun add_terms :: "real list \<Rightarrow> real list \<Rightarrow> real list" where
  "add_terms [] ts = ts"
| "add_terms cs [] = cs"
| "add_terms (c # cs) (t # ts) = (c + t) # add_terms cs ts"

definition coeff_at :: "real list \<Rightarrow> nat \<Rightarrow> real" where
  "coeff_at cs i = (if i < length cs then cs ! i else 0)"

text \<open>
  Modelled from the spec: "\<open>Accumulate(referencePoint, weight, order)\<close>: for every
  multi-index \<open>\<alpha>\<close> with \<open>|\<alpha>| \<le> order\<close>, compute displacement =
  \<open>(referencePoint - center) / (k\<cdot>h)\<close>, add \<open>weight \<cdot> displacement^\<alpha>\<close> into \<open>coeffs[rank(\<alpha>)]\<close>.
  Side effect: mutates this object only; no return value". The declaration is
  \<^verbatim>\<open>void Accumulate(const core::table::DensePoint &reference_point, double weight, int order)\<close>;
  its body is missing. The class has no member for the kernel constants, so they are an
  argument here. No multi-index has a negative order, so a negative \<open>order\<close> adds nothing.
  The sentence names no effect on the order field, and none is modelled.
\<close>

definition Accumulate ::
  "CartesianFarField \<Rightarrow> KernelAux \<Rightarrow> real list \<Rightarrow> real \<Rightarrow> int \<Rightarrow> CartesianFarField" where
  "Accumulate x ka reference_point weight order =
     (if order < 0 then x
      else
        let d = displacement ka reference_point (center_m x);
            terms = map (\<lambda>\<alpha>. weight * Power d \<alpha>) (Enumerate (length (center_m x)) (nat order))
        in x\<lparr>coeffs_m := add_terms (coeffs_m x) terms\<rparr>)"

text \<open>
  Modelled from the spec: "\<open>AccumulateCoeffs(data, weights, begin, end, order)\<close>: batch form
  -- iterates reference points \<open>data[begin..end)\<close> with their weights, accumulating into the
  same coefficient vector". The body is missing. \<open>data\<close> is the list of the reference points
  (the columns of the \<^verbatim>\<open>DenseMatrix\<close>), and the two bounds are written \<open>begin_i\<close> and \<open>end_i\<close>.
\<close>

definition AccumulateCoeffs ::
  "CartesianFarField \<Rightarrow> KernelAux \<Rightarrow> real list list \<Rightarrow> real list \<Rightarrow> nat \<Rightarrow> nat \<Rightarrow> int
     \<Rightarrow> CartesianFarField" where
  "AccumulateCoeffs x ka data weights begin_i end_i order =
     fold (\<lambda>r y. Accumulate y ka (data ! r) (weights ! r) order) [begin_i..<end_i] x"

section \<open>\<^verbatim>\<open>ClampRange\<close>\<close>

lemma ClampRange_cases:
  "ClampRange v lo hi = (if v \<le> lo then lo else if hi \<le> v then hi else v)"
  by (simp add: ClampRange_def)

text \<open>
  Claim C9. For every real value and every pair \<open>range_min \<le> range_max\<close>,
  \<open>ClampRange value range_min range_max\<close> is \<open>max range_min (min range_max value)\<close>: it is
  \<open>range_min\<close> when \<open>value \<le> range_min\<close>, \<open>range_max\<close> when \<open>value \<ge> range_max\<close>, and
  \<open>value\<close> itself otherwise.
\<close>

theorem ClampRange_is_max_min:
  assumes "range_min \<le> range_max"
  shows "ClampRange v range_min range_max = max range_min (min range_max v)
       \<and> (v \<le> range_min \<longrightarrow> ClampRange v range_min range_max = range_min)
       \<and> (v \<ge> range_max \<longrightarrow> ClampRange v range_min range_max = range_max)
       \<and> (\<not> v \<le> range_min \<and> \<not> v \<ge> range_max \<longrightarrow> ClampRange v range_min range_max = v)"
  using assms by (auto simp: ClampRange_cases max_def min_def)

theorem ClampRange_is_max_min_witness:
  "(0::real) \<le> 10
   \<and> ClampRange 15 0 10 = max 0 (min 10 15) \<and> ClampRange 15 0 10 = 10
   \<and> ClampRange (-3) 0 10 = 0 \<and> ClampRange 7 0 10 = 7"
proof -
  have le: "(0::real) \<le> 10" by simp
  show ?thesis
    using ClampRange_is_max_min [OF le, of 15] ClampRange_is_max_min [OF le, of "-3"]
      ClampRange_is_max_min [OF le, of 7]
    by simp
qed

section \<open>Rounding to a double\<close>

lemma find_exp_lower: "e \<le> find_exp n e a"
proof (induction n arbitrary: e)
  case 0
  then show ?case by simp
next
  case (Suc n)
  have "e + 1 \<le> find_exp n (e + 1) a" by (rule Suc.IH)
  then show ?case by simp
qed

lemma find_exp_least: "e \<le> e' \<Longrightarrow> a < 2 powi (e' + 53) \<Longrightarrow> find_exp n e a \<le> e'"
proof (induction n arbitrary: e)
  case 0
  then show ?case by simp
next
  case (Suc n)
  show ?case
  proof (cases "a < 2 powi (e + 53)")
    case True
    with Suc.prems show ?thesis by simp
  next
    case False
    with Suc.prems have "e \<noteq> e'" by auto
    with Suc.prems have "e + 1 \<le> e'" by simp
    from Suc.IH [OF this Suc.prems(2)] False show ?thesis by simp
  qed
qed

lemma find_exp_exhausted: "2 powi (e + int n + 52) \<le> a \<Longrightarrow> find_exp n e a = e + int n"
proof (induction n arbitrary: e)
  case 0
  then show ?case by simp
next
  case (Suc n)
  have "(2::real) powi (e + 53) \<le> 2 powi (e + int (Suc n) + 52)"
    by (rule power_int_increasing) simp_all
  with Suc.prems have no: "\<not> a < 2 powi (e + 53)" by linarith
  have "2 powi (e + 1 + int n + 52) \<le> a"
    using Suc.prems by (simp add: add.commute add.left_commute)
  from Suc.IH [OF this] no show ?case by simp
qed

lemma round_even_of_int: "round_even (of_int m) = m"
  by (simp add: round_even_def)

lemma round_even_ge: "of_int N \<le> q \<Longrightarrow> N \<le> round_even q"
proof -
  assume "of_int N \<le> q"
  then have "N \<le> \<lfloor>q\<rfloor>" by (simp add: le_floor_iff)
  then show ?thesis by (simp add: round_even_def Let_def)
qed

lemma round_even_le: "q \<le> of_int N \<Longrightarrow> round_even q \<le> N"
proof -
  assume q: "q \<le> of_int N"
  then have f: "\<lfloor>q\<rfloor> \<le> N" by (simp add: floor_le_iff) 
  show ?thesis
  proof (cases "\<lfloor>q\<rfloor> = N")
    case True
    then have "of_int N \<le> q" by (metis of_int_floor_le)
    with q have "q = of_int N" by simp
    then show ?thesis by (simp add: round_even_of_int)
  next
    case False
    with f have "\<lfloor>q\<rfloor> + 1 \<le> N" by simp
    with f show ?thesis by (simp add: round_even_def Let_def)
  qed
qed

lemma round_to_double_exact:
  assumes "is_double r"
  shows "round_to_double r = Finite r"
proof -
  from assms obtain m e :: int where m: "\<bar>m\<bar> < 2 ^ 53" and e: "- 1074 \<le> e" "e \<le> 971"
    and r: "r = of_int m * 2 powi e"
    by (auto simp: is_double_def)
  define e0 where "e0 = find_exp 2045 (- 1074) \<bar>r\<bar>"
  have "\<bar>r\<bar> = \<bar>of_int m\<bar> * 2 powi e" by (simp add: r abs_mult)
  also have "\<dots> < 2 ^ 53 * 2 powi e"
  proof -
    have "\<bar>real_of_int m\<bar> < 2 ^ 53" using m by (metis of_int_abs of_int_less_numeral_power_cancel_iff)
    then show ?thesis by (simp add: mult_strict_right_mono)
  qed
  also have "\<dots> = 2 powi (e + 53)" by (simp add: power_int_add)
  finally have lt: "\<bar>r\<bar> < 2 powi (e + 53)" .
  have e0: "- 1074 \<le> e0" "e0 \<le> e"
    unfolding e0_def using find_exp_lower find_exp_least [OF e(1) lt] by simp_all
  define k where "k = nat (e - e0)"
  have ek: "e = e0 + int k" using e0 by (simp add: k_def)
  have q: "r / 2 powi e0 = of_int (m * 2 ^ k)"
    by (simp add: r ek power_int_add)
  have v: "of_int (round_even (r / 2 powi e0)) * 2 powi e0 = r"
    unfolding q round_even_of_int by (simp add: r ek power_int_add)
  have "\<bar>r\<bar> < 2 powi (e + 53)" by (rule lt)
  also have "\<dots> \<le> 2 powi 1024"
    by (rule power_int_increasing) (use e in simp_all)
  finally have "\<bar>r\<bar> < 2 ^ 1024" by simp
  then have "\<not> 2 ^ 1024 \<le> r" "\<not> r \<le> - (2 ^ 1024)" by linarith+
  then show ?thesis
    unfolding round_to_double_def Let_def e0_def [symmetric] v by simp
qed

lemma round_even_scaled_ge:
  assumes "0 < B" "of_int N * B \<le> r"
  shows "of_int N * B \<le> of_int (round_even (r / B)) * B"
proof -
  have "of_int N \<le> r / B"
    using assms by (simp add: pos_le_divide_eq)
  then have "N \<le> round_even (r / B)" by (rule round_even_ge)
  then have "real_of_int N \<le> of_int (round_even (r / B))" by simp
  then show ?thesis using assms(1) by (simp add: mult_right_mono)
qed

lemma round_even_scaled_le:
  assumes "0 < B" "r \<le> of_int N * B"
  shows "of_int (round_even (r / B)) * B \<le> of_int N * B"
proof -
  have "r / B \<le> of_int N"
    using assms by (simp add: pos_divide_le_eq)
  then have "round_even (r / B) \<le> N" by (rule round_even_le)
  then have "real_of_int (round_even (r / B)) \<le> of_int N" by simp
  then show ?thesis using assms(1) by (simp add: mult_right_mono)
qed

lemma two_1024: "real_of_int (2 ^ 53) * 2 powi 971 = 2 ^ 1024"
proof -
  have "real_of_int (2 ^ 53) * 2 powi 971 = 2 powi 53 * 2 powi 971" by simp
  also have "\<dots> = 2 powi (53 + 971)" by (simp only: power_int_add [of "2::real", simplified])
  also have "\<dots> = 2 ^ 1024" by simp
  finally show ?thesis .
qed

lemma pos_971: "(0::real) < 2 powi 971"
  by (rule zero_less_power_int) simp

lemma find_exp_overflow:
  assumes "2 ^ 1023 \<le> a"
  shows "find_exp 2045 (- 1074) a = 971"
proof -
  have "(2::real) powi (- 1074 + int 2045 + 52) = 2 ^ 1023" by simp
  with assms have "2 powi (- 1074 + int 2045 + 52) \<le> a" by simp
  from find_exp_exhausted [OF this] show ?thesis by simp
qed

lemma round_to_double_overflow:
  assumes "2 ^ 1024 \<le> r"
  shows "round_to_double r = PlusInf"
proof -
  have "(2::real) ^ 1023 \<le> 2 ^ 1024" by (rule power_increasing) simp_all
  with assms have "2 ^ 1023 \<le> \<bar>r\<bar>" by linarith
  then have e: "find_exp 2045 (- 1074) \<bar>r\<bar> = 971" by (rule find_exp_overflow)
  have "real_of_int (2 ^ 53) * 2 powi 971 \<le> r"
    unfolding two_1024 by (rule assms)
  then have "real_of_int (2 ^ 53) * 2 powi 971
      \<le> of_int (round_even (r / 2 powi 971)) * 2 powi 971"
    by (rule round_even_scaled_ge [OF pos_971])
  then have "2 ^ 1024 \<le> real_of_int (round_even (r / 2 powi 971)) * 2 powi 971"
    by (simp only: two_1024)
  then show ?thesis
    unfolding round_to_double_def Let_def e by (simp only: if_True)
qed

lemma round_to_double_underflow:
  assumes "r \<le> - (2 ^ 1024)"
  shows "round_to_double r = MinusInf"
proof -
  have "(2::real) ^ 1023 \<le> 2 ^ 1024" by (rule power_increasing) simp_all
  with assms have "2 ^ 1023 \<le> \<bar>r\<bar>" by linarith
  then have e: "find_exp 2045 (- 1074) \<bar>r\<bar> = 971" by (rule find_exp_overflow)
  have m: "real_of_int (- (2 ^ 53)) * 2 powi 971 = - (2 ^ 1024)"
    by (simp only: of_int_minus mult_minus_left two_1024)
  have "r \<le> real_of_int (- (2 ^ 53)) * 2 powi 971"
    unfolding m by (rule assms)
  then have "of_int (round_even (r / 2 powi 971)) * 2 powi 971
      \<le> real_of_int (- (2 ^ 53)) * 2 powi 971"
    by (rule round_even_scaled_le [OF pos_971])
  then have le: "real_of_int (round_even (r / 2 powi 971)) * 2 powi 971 \<le> - (2 ^ 1024)"
    by (simp only: m)
  have "- ((2::real) ^ 1024) < 2 ^ 1024" by simp
  with le have "\<not> 2 ^ 1024 \<le> real_of_int (round_even (r / 2 powi 971)) * 2 powi 971" by linarith
  with le show ?thesis
    unfolding round_to_double_def Let_def e by (simp only: if_True if_False)
qed


section \<open>The branch-free clamps\<close>

lemma is_double_0: "is_double 0"
  unfolding is_double_def by (rule exI [of _ 0], rule exI [of _ 0]) simp

lemma two_1023: "real_of_int (2 ^ 52) * 2 powi 971 = 2 ^ 1023"
proof -
  have "real_of_int (2 ^ 52) * 2 powi 971 = 2 powi 52 * 2 powi 971" by simp
  also have "\<dots> = 2 powi (52 + 971)" by (simp only: power_int_add [of "2::real", simplified])
  also have "\<dots> = 2 ^ 1023" by simp
  finally show ?thesis .
qed

lemma is_double_2_1023: "is_double (2 ^ 1023)"
  unfolding is_double_def
  by (rule exI [of _ "2 ^ 52"], rule exI [of _ 971]) (simp only: two_1023, simp)

lemma is_double_minus: "is_double r \<Longrightarrow> is_double (- r)"
proof -
  assume "is_double r"
  then obtain m e :: int where "\<bar>m\<bar> < 2 ^ 53" "- 1074 \<le> e" "e \<le> 971" "r = of_int m * 2 powi e"
    by (auto simp: is_double_def)
  then have "\<bar>- m\<bar> < 2 ^ 53 \<and> - 1074 \<le> e \<and> e \<le> 971 \<and> - r = of_int (- m) * 2 powi e"
    by simp
  then show ?thesis unfolding is_double_def by blast
qed

lemma is_double_twice:
  assumes "is_double r" "\<bar>r\<bar> < 2 ^ 1023"
  shows "is_double (2 * r)"
proof -
  from assms(1) obtain m e :: int where m: "\<bar>m\<bar> < 2 ^ 53" and e: "- 1074 \<le> e" "e \<le> 971"
    and r: "r = of_int m * 2 powi e"
    by (auto simp: is_double_def)
  show ?thesis
  proof (cases "e = 971")
    case False
    have "2 * r = of_int m * 2 powi (e + 1)"
      by (simp add: r power_int_add)
    with m e False have "\<bar>m\<bar> < 2 ^ 53 \<and> - 1074 \<le> e + 1 \<and> e + 1 \<le> 971 \<and> 2 * r = of_int m * 2 powi (e + 1)"
      by simp
    then show ?thesis unfolding is_double_def by blast
  next
    case True
    have "\<bar>real_of_int m\<bar> * 2 powi 971 = \<bar>r\<bar>"
      by (simp add: r True abs_mult)
    also have "\<dots> < real_of_int (2 ^ 52) * 2 powi 971"
      unfolding two_1023 by (rule assms(2))
    finally have "\<bar>real_of_int m\<bar> < real_of_int (2 ^ 52)"
      using pos_971 by (simp only: mult_less_cancel_right_pos)
    then have "real_of_int \<bar>m\<bar> < real_of_int (2 ^ 52)" by simp
    then have "\<bar>m\<bar> < 2 ^ 52" by (simp only: of_int_less_iff)
    then have "\<bar>2 * m\<bar> < 2 ^ 53" by simp
    moreover have "2 * r = of_int (2 * m) * 2 powi 971"
      by (simp add: r True)
    ultimately have "\<bar>2 * m\<bar> < 2 ^ 53 \<and> - 1074 \<le> (971::int) \<and> (971::int) \<le> 971
        \<and> 2 * r = of_int (2 * m) * 2 powi 971"
      by simp
    then show ?thesis unfolding is_double_def by blast
  qed
qed

lemma ClampNonNegative_of_nonpositive:
  assumes "d \<le> 0"
  shows "ClampNonNegative (Finite d) = Finite 0"
proof -
  have "d + \<bar>d\<bar> = 0" using assms by simp
  then show ?thesis
    by (simp add: ClampNonNegative_def round_to_double_exact [OF is_double_0])
qed

lemma ClampNonNegative_in_range:
  assumes "is_double d" "0 < d" "d < 2 ^ 1023"
  shows "ClampNonNegative (Finite d) = Finite d"
proof -
  have s: "d + \<bar>d\<bar> = 2 * d" using assms(2) by simp
  have "\<bar>d\<bar> < 2 ^ 1023" using assms(2,3) by simp
  then have "is_double (2 * d)" by (rule is_double_twice [OF assms(1)])
  then have "double_add (Finite d) (fabs (Finite d)) = Finite (2 * d)"
    by (simp only: fabs.simps double_add.simps s round_to_double_exact)
  then show ?thesis
    by (simp add: ClampNonNegative_def round_to_double_exact [OF assms(1)])
qed

lemma ClampNonNegative_overflow:
  assumes "2 ^ 1023 \<le> d"
  shows "ClampNonNegative (Finite d) = PlusInf"
proof -
  have "(0::real) \<le> 2 ^ 1023" by simp
  with assms have "0 \<le> d" by linarith
  then have s: "d + \<bar>d\<bar> = 2 * d" by simp
  have "(2::real) ^ 1024 = 2 * 2 ^ 1023" by simp
  also have "\<dots> \<le> 2 * d" using assms by (simp only: mult_le_cancel_left_pos zero_less_numeral)
  finally have "round_to_double (2 * d) = PlusInf" by (rule round_to_double_overflow)
  then have "double_add (Finite d) (fabs (Finite d)) = PlusInf"
    by (simp only: fabs.simps double_add.simps s)
  then show ?thesis
    by (simp only: ClampNonNegative_def double_half.simps)
qed

lemma ClampNonPositive_of_nonnegative:
  assumes "0 \<le> d"
  shows "ClampNonPositive (Finite d) = Finite 0"
proof -
  have "d + - \<bar>d\<bar> = 0" using assms by simp
  then show ?thesis
    by (simp add: ClampNonPositive_def double_sub_def round_to_double_exact [OF is_double_0])
qed

lemma ClampNonPositive_in_range:
  assumes "is_double d" "d < 0" "- (2 ^ 1023) < d"
  shows "ClampNonPositive (Finite d) = Finite d"
proof -
  have s: "d + - \<bar>d\<bar> = 2 * d" using assms(2) by simp
  have "\<bar>d\<bar> < 2 ^ 1023" using assms(2,3) by linarith
  then have "is_double (2 * d)" by (rule is_double_twice [OF assms(1)])
  then have "double_sub (Finite d) (fabs (Finite d)) = Finite (2 * d)"
    by (simp only: double_sub_def fabs.simps double_neg.simps double_add.simps s
        round_to_double_exact)
  then show ?thesis
    by (simp add: ClampNonPositive_def round_to_double_exact [OF assms(1)])
qed

lemma ClampNonPositive_overflow:
  assumes "d \<le> - (2 ^ 1023)"
  shows "ClampNonPositive (Finite d) = MinusInf"
proof -
  have "- ((2::real) ^ 1023) \<le> 0" by simp
  with assms have "d \<le> 0" by linarith
  then have s: "d + - \<bar>d\<bar> = 2 * d" by simp
  have "2 * d \<le> 2 * - ((2::real) ^ 1023)"
    using assms by (simp only: mult_le_cancel_left_pos zero_less_numeral)
  also have "\<dots> = - (2 ^ 1024)" by simp
  finally have "round_to_double (2 * d) = MinusInf" by (rule round_to_double_underflow)
  then have "double_sub (Finite d) (fabs (Finite d)) = MinusInf"
    by (simp only: double_sub_def fabs.simps double_neg.simps double_add.simps s)
  then show ?thesis
    by (simp only: ClampNonPositive_def double_half.simps)
qed

lemma is_double_3: "is_double 3"
  unfolding is_double_def by (rule exI [of _ 3], rule exI [of _ 0]) simp

text \<open>
  Outside the finite doubles the two routines do what the operations do: an infinity of
  the clamped sign comes back, the other infinity meets its own negation in the sum and
  gives NaN, and NaN stays NaN.
\<close>

lemma Clamp_of_infinities_and_NaN:
  "ClampNonNegative PlusInf = PlusInf \<and> ClampNonNegative MinusInf = NaN
   \<and> ClampNonNegative NaN = NaN
   \<and> ClampNonPositive MinusInf = MinusInf \<and> ClampNonPositive PlusInf = NaN
   \<and> ClampNonPositive NaN = NaN"
  by (simp add: ClampNonNegative_def ClampNonPositive_def double_sub_def)

text \<open>
  Claim C10, as amended. The claim reads: for every real number \<open>d\<close>, \<open>ClampNonNegative d\<close>
  equals \<open>max d 0\<close> and \<open>ClampNonPositive d\<close> equals \<open>min d 0\<close>. For every finite double \<open>d\<close>:
  \<open>ClampNonNegative d = (d + |d|) / 2\<close> is \<open>max d 0\<close> when \<open>d < 2\<^sup>1\<^sup>0\<^sup>2\<^sup>3\<close>, and \<open>+\<infinity>\<close> when
  \<open>d \<ge> 2\<^sup>1\<^sup>0\<^sup>2\<^sup>3\<close>, where the sum \<open>d + |d|\<close> overflows; \<open>ClampNonPositive d = (d - |d|) / 2\<close> is
  \<open>min d 0\<close> when \<open>d > -2\<^sup>1\<^sup>0\<^sup>2\<^sup>3\<close>, and \<open>-\<infinity>\<close> when \<open>d \<le> -2\<^sup>1\<^sup>0\<^sup>2\<^sup>3\<close>.
\<close>

theorem Clamp_sign_on_doubles:
  assumes "is_double d"
  shows "(d < 2 ^ 1023 \<longrightarrow> ClampNonNegative (Finite d) = Finite (max d 0))
       \<and> (2 ^ 1023 \<le> d \<longrightarrow> ClampNonNegative (Finite d) = PlusInf)
       \<and> (- (2 ^ 1023) < d \<longrightarrow> ClampNonPositive (Finite d) = Finite (min d 0))
       \<and> (d \<le> - (2 ^ 1023) \<longrightarrow> ClampNonPositive (Finite d) = MinusInf)"
proof (intro conjI impI)
  show "ClampNonNegative (Finite d) = Finite (max d 0)" if "d < 2 ^ 1023"
  proof (cases "0 < d")
    case True
    with ClampNonNegative_in_range [OF assms True that] show ?thesis by (simp add: max_def)
  next
    case False
    then have "d \<le> 0" by simp
    with ClampNonNegative_of_nonpositive [OF this] show ?thesis by (simp add: max_def)
  qed
  show "ClampNonNegative (Finite d) = PlusInf" if "2 ^ 1023 \<le> d"
    using that by (rule ClampNonNegative_overflow)
  show "ClampNonPositive (Finite d) = Finite (min d 0)" if "- (2 ^ 1023) < d"
  proof (cases "d < 0")
    case True
    with ClampNonPositive_in_range [OF assms True that] show ?thesis by (simp add: min_def)
  next
    case False
    then have "0 \<le> d" by simp
    with ClampNonPositive_of_nonnegative [OF this] show ?thesis by (simp add: min_def)
  qed
  show "ClampNonPositive (Finite d) = MinusInf" if "d \<le> - (2 ^ 1023)"
    using that by (rule ClampNonPositive_overflow)
qed

text \<open>
  The amended claim at the doubles \<open>3\<close>, \<open>-3\<close>, \<open>2\<^sup>1\<^sup>0\<^sup>2\<^sup>3\<close> and \<open>-2\<^sup>1\<^sup>0\<^sup>2\<^sup>3\<close>.
\<close>

theorem Clamp_sign_on_doubles_witness:
  "is_double 3 \<and> is_double (- 3) \<and> is_double (2 ^ 1023) \<and> is_double (- (2 ^ 1023))
   \<and> ClampNonNegative (Finite 3) = Finite 3 \<and> ClampNonPositive (Finite 3) = Finite 0
   \<and> ClampNonNegative (Finite (- 3)) = Finite 0 \<and> ClampNonPositive (Finite (- 3)) = Finite (- 3)
   \<and> ClampNonNegative (Finite (2 ^ 1023)) = PlusInf
   \<and> ClampNonPositive (Finite (- (2 ^ 1023))) = MinusInf"
proof -
  note d = is_double_3 is_double_minus [OF is_double_3] is_double_2_1023
    is_double_minus [OF is_double_2_1023]
  have "ClampNonNegative (Finite 3) = Finite 3" "ClampNonPositive (Finite 3) = Finite 0"
    using Clamp_sign_on_doubles [OF d(1)] by simp_all
  moreover have "ClampNonNegative (Finite (- 3)) = Finite 0"
    "ClampNonPositive (Finite (- 3)) = Finite (- 3)"
    using Clamp_sign_on_doubles [OF d(2)] by simp_all
  moreover have "ClampNonNegative (Finite (2 ^ 1023)) = PlusInf"
    using Clamp_sign_on_doubles [OF d(3)] by simp
  moreover have "ClampNonPositive (Finite (- (2 ^ 1023))) = MinusInf"
    using Clamp_sign_on_doubles [OF d(4)] by simp
  ultimately show ?thesis using d by simp
qed

text \<open>
  Claim C10 as it is stated fails at the finite double \<open>d = 2\<^sup>1\<^sup>0\<^sup>2\<^sup>3\<close>: \<open>d + |d|\<close> is \<open>2\<^sup>1\<^sup>0\<^sup>2\<^sup>4\<close>,
  above every finite double, so \<open>ClampNonNegative d\<close> is \<open>+\<infinity>\<close> and not \<open>max d 0 = d\<close>.
\<close>

theorem ClampNonNegative_not_max_at_2_1023:
  "is_double (2 ^ 1023)
   \<and> ClampNonNegative (Finite (2 ^ 1023)) = PlusInf
   \<and> ClampNonNegative (Finite (2 ^ 1023)) \<noteq> Finite (max (2 ^ 1023) 0)"
proof -
  have "ClampNonNegative (Finite (2 ^ 1023)) = PlusInf"
    by (rule ClampNonNegative_overflow) simp
  then show ?thesis using is_double_2_1023 by simp
qed

section \<open>The multi-index enumeration\<close>

lemma set_multiindices_of_order:
  "set (multiindices_of_order D n) = {\<alpha>. length \<alpha> = D \<and> sum_list \<alpha> = n}"
proof (induction D arbitrary: n)
  case 0
  then show ?case by auto
next
  case (Suc D)
  show ?case
  proof (intro set_eqI iffI)
    fix \<alpha> assume "\<alpha> \<in> set (multiindices_of_order (Suc D) n)"
    then obtain i \<beta> where "i \<le> n" "\<beta> \<in> set (multiindices_of_order D (n - i))" "\<alpha> = i # \<beta>"
      by (auto simp: less_Suc_eq_le)
    then show "\<alpha> \<in> {\<alpha>. length \<alpha> = Suc D \<and> sum_list \<alpha> = n}"
      by (simp add: Suc.IH)
  next
    fix \<alpha> assume "\<alpha> \<in> {\<alpha>. length \<alpha> = Suc D \<and> sum_list \<alpha> = n}"
    then obtain i \<beta> where a: "\<alpha> = i # \<beta>" "length \<beta> = D" "i + sum_list \<beta> = n"
      by (cases \<alpha>) auto
    then have "i < Suc n" "\<beta> \<in> set (multiindices_of_order D (n - i))"
      by (auto simp: Suc.IH)
    then show "\<alpha> \<in> set (multiindices_of_order (Suc D) n)"
      unfolding a by (auto intro!: bexI [of _ i])
  qed
qed

lemma Enumerate_Suc: "Enumerate D (Suc p) = Enumerate D p @ multiindices_of_order D (Suc p)"
  by (simp add: Enumerate_def)

lemma Enumerate_0: "Enumerate D 0 = [replicate D 0]"
proof -
  have "multiindices_of_order D 0 = [replicate D 0]"
    by (induction D) simp_all
  then show ?thesis by (simp add: Enumerate_def)
qed

lemma set_Enumerate: "set (Enumerate D p) = {\<alpha>. length \<alpha> = D \<and> sum_list \<alpha> \<le> p}"
  by (auto simp: Enumerate_def set_multiindices_of_order less_Suc_eq_le)

lemma Enumerate_prefix: "p \<le> q \<Longrightarrow> \<exists>rest. Enumerate D q = Enumerate D p @ rest"
proof (induction q)
  case 0
  then show ?case by simp
next
  case (Suc q)
  show ?case
  proof (cases "p = Suc q")
    case True
    then show ?thesis by simp
  next
    case False
    with Suc obtain rest where "Enumerate D q = Enumerate D p @ rest" by auto
    then show ?thesis by (simp add: Enumerate_Suc)
  qed
qed

lemma Enumerate_nonempty: "Enumerate D p \<noteq> []"
  using Enumerate_prefix [of 0 p D] by (auto simp: Enumerate_0)

lemma hd_Enumerate: "Enumerate D p ! 0 = replicate D 0"
  using Enumerate_prefix [of 0 p D] by (auto simp: Enumerate_0)

section \<open>Adding terms into the coefficient vector\<close>

lemma length_add_terms: "length (add_terms cs ts) = max (length cs) (length ts)"
  by (induction cs ts rule: add_terms.induct) auto

lemma nth_add_terms:
  "i < length ts \<Longrightarrow> add_terms cs ts ! i = coeff_at cs i + ts ! i"
proof (induction cs ts arbitrary: i rule: add_terms.induct)
  case (1 ts)
  then show ?case by (simp add: coeff_at_def)
next
  case (2 c cs)
  then show ?case by simp
next
  case (3 c cs t ts)
  then show ?case by (cases i) (auto simp: coeff_at_def)
qed

lemma Power_zero: "Power d (replicate D 0) = 1"
proof -
  have "prod_list (map2 (\<lambda>d a. d ^ a) d (replicate D 0)) = (1::real)" for d :: "real list"
  proof (induction D arbitrary: d)
    case 0 then show ?case by simp
  next
    case (Suc D) then show ?case by (cases d) auto
  qed
  then show ?thesis by (simp add: Power_def)
qed

section \<open>The weight sum\<close>

lemma coeffs_Accumulate:
  "0 \<le> order \<Longrightarrow>
     coeffs_m (Accumulate x ka reference_point weight order) =
       add_terms (coeffs_m x)
         (map (\<lambda>\<alpha>. weight * Power (displacement ka reference_point (center_m x)) \<alpha>)
            (Enumerate (length (center_m x)) (nat order)))"
  by (simp add: Accumulate_def Let_def)

lemma weight_sum_Accumulate:
  assumes "0 \<le> order" "get_weight_sum x = Some s"
  shows "get_weight_sum (Accumulate x ka reference_point weight order) = Some (s + weight)"
proof -
  let ?ts = "map (\<lambda>\<alpha>. weight * Power (displacement ka reference_point (center_m x)) \<alpha>)
               (Enumerate (length (center_m x)) (nat order))"
  have cs: "coeffs_m x \<noteq> []" "coeffs_m x ! 0 = s"
    using assms(2) by (auto simp: get_weight_sum_def split: if_splits)
  have pos: "0 < length ?ts"
    using Enumerate_nonempty [of "length (center_m x)" "nat order"] by simp
  have "?ts ! 0 = weight"
    using pos by (simp add: hd_Enumerate Power_zero)
  then have "add_terms (coeffs_m x) ?ts ! 0 = s + weight"
    using nth_add_terms [OF pos, of "coeffs_m x"] cs by (simp add: coeff_at_def)
  moreover have "add_terms (coeffs_m x) ?ts \<noteq> []"
    using length_add_terms [of "coeffs_m x" ?ts] cs(1) by auto
  ultimately show ?thesis
    by (simp add: get_weight_sum_def coeffs_Accumulate [OF assms(1)])
qed

lemma weight_sum_fold:
  assumes "0 \<le> order" "get_weight_sum x = Some s"
  shows "get_weight_sum (fold (\<lambda>r y. Accumulate y ka (data ! r) (weights ! r) order) rs x)
           = Some (s + sum_list (map ((!) weights) rs))"
  using assms(2)
proof (induction rs arbitrary: x s)
  case Nil
  then show ?case by simp
next
  case (Cons r rs)
  have "get_weight_sum (Accumulate x ka (data ! r) (weights ! r) order) = Some (s + weights ! r)"
    by (rule weight_sum_Accumulate [OF assms(1) Cons.prems])
  from Cons.IH [OF this] show ?case by (simp add: add.assoc)
qed

lemma weight_sum_AccumulateCoeffs:
  assumes "0 \<le> order" "get_weight_sum x = Some s"
  shows "get_weight_sum (AccumulateCoeffs x ka data weights begin_i end_i order)
           = Some (s + (\<Sum>r = begin_i..<end_i. weights ! r))"
  unfolding AccumulateCoeffs_def weight_sum_fold [OF assms]
  by (simp add: interv_sum_list_conv_sum_set_nat)

lemma weight_sum_Init: "get_weight_sum (Init center ka) = Some 0"
  by (simp add: get_weight_sum_def Init_def Enumerate_0)

text \<open>
  Claim C5. \<open>get_weight_sum\<close> returns the first coefficient. Once \<open>Init\<close> has run it is
  defined, and it is \<open>0\<close> before any point is accumulated. After the points
  \<open>data[begin..end)\<close> have been accumulated with their weights, to any order \<open>\<ge> 0\<close>, it is the
  sum of those weights, whatever the order, the centre, the kernel constants and the
  points are; accumulated into an expansion that already holds a weight sum \<open>s\<close>, the sum
  of the weights is added to \<open>s\<close>, and a single \<open>Accumulate\<close> adds the weight of its point.
  The sum is the one of the reals.
\<close>

theorem get_weight_sum_is_total_weight:
  "(coeffs_m x \<noteq> [] \<longrightarrow> get_weight_sum x = Some (get_coeffs x ! 0))
   \<and> get_weight_sum (Init center ka) = Some 0
   \<and> (0 \<le> order \<and> end_i \<le> length data \<and> end_i \<le> length weights \<longrightarrow>
        get_weight_sum (AccumulateCoeffs (Init center ka) ka data weights begin_i end_i order)
          = Some (\<Sum>r = begin_i..<end_i. weights ! r))
   \<and> (0 \<le> order \<and> end_i \<le> length data \<and> end_i \<le> length weights \<and> get_weight_sum x = Some s \<longrightarrow>
        get_weight_sum (AccumulateCoeffs x ka data weights begin_i end_i order)
          = Some (s + (\<Sum>r = begin_i..<end_i. weights ! r)))
   \<and> (0 \<le> order \<and> get_weight_sum x = Some s \<longrightarrow>
        get_weight_sum (Accumulate x ka reference_point weight order) = Some (s + weight))"
proof (intro conjI impI)
  show "get_weight_sum x = Some (get_coeffs x ! 0)" if "coeffs_m x \<noteq> []"
    using that by (simp add: get_weight_sum_def get_coeffs_def)
  show "get_weight_sum (Init center ka) = Some 0"
    by (rule weight_sum_Init)
  show "get_weight_sum (AccumulateCoeffs (Init center ka) ka data weights begin_i end_i order)
          = Some (\<Sum>r = begin_i..<end_i. weights ! r)"
    if "0 \<le> order \<and> end_i \<le> length data \<and> end_i \<le> length weights"
    using that weight_sum_AccumulateCoeffs [OF _ weight_sum_Init, of order] by simp
  show "get_weight_sum (AccumulateCoeffs x ka data weights begin_i end_i order)
          = Some (s + (\<Sum>r = begin_i..<end_i. weights ! r))"
    if "0 \<le> order \<and> end_i \<le> length data \<and> end_i \<le> length weights \<and> get_weight_sum x = Some s"
    using that weight_sum_AccumulateCoeffs [of order x s] by simp
  show "get_weight_sum (Accumulate x ka reference_point weight order) = Some (s + weight)"
    if "0 \<le> order \<and> get_weight_sum x = Some s"
    using that weight_sum_Accumulate [of order x s] by simp
qed

text \<open>
  Claim C5 at three points of weights \<open>3\<close>, \<open>4\<close> and \<open>5\<close>, accumulated to order \<open>2\<close> about the
  centre \<open>(0, 1)\<close>: the weight sum is \<open>12\<close>.
\<close>

theorem get_weight_sum_is_total_weight_witness:
  "(0 :: int) \<le> 2
   \<and> (3 :: nat) \<le> length [[2, 5], [1, 1], [0, 7 :: real]] \<and> (3 :: nat) \<le> length [3, 4, 5 :: real]
   \<and> coeffs_m (Init [0, 1] \<lparr>kernel_k = 1, kernel_h = 2\<rparr>) \<noteq> []
   \<and> get_weight_sum (Init [0, 1] \<lparr>kernel_k = 1, kernel_h = 2\<rparr>) = Some 0
   \<and> get_weight_sum (AccumulateCoeffs (Init [0, 1] \<lparr>kernel_k = 1, kernel_h = 2\<rparr>)
        \<lparr>kernel_k = 1, kernel_h = 2\<rparr> [[2, 5], [1, 1], [0, 7]] [3, 4, 5] 0 3 2) = Some 12"
proof -
  let ?ka = "\<lparr>kernel_k = 1, kernel_h = 2\<rparr>"
  have s: "(\<Sum>r = 0..<3. [3, 4, 5 :: real] ! r) = 12"
    by (simp add: numeral_3_eq_3)
  have c: "coeffs_m (Init [0, 1] ?ka) \<noteq> []"
    by (simp add: Init_def Enumerate_0)
  show ?thesis
    using get_weight_sum_is_total_weight
      [of "Init [0, 1] ?ka" "[0, 1]" ?ka 2 3 "[[2, 5], [1, 1], [0, 7]]" "[3, 4, 5]" 0 0 "[2, 5]" 3]
    by (simp add: s c get_weight_sum_def)
qed

section \<open>The setters and the invariant of the data model\<close>












end
